theory Spec2Isabelle
  imports Complex_Main "HOL-Library.List_Lexorder"
begin

section \<open>Python strings\<close>

text \<open>
  A Python \<open>str\<close> is a sequence of Unicode code points: \<open>len\<close> counts code points and
  \<open>sorted\<close> compares code point by code point. A string is therefore a list of code
  points (natural numbers), ordered lexicographically; \<open>py\<close> turns an ASCII literal
  into such a list.
\<close>

type_synonym pystr = "nat list"

definition py :: "string \<Rightarrow> pystr" where
  "py s = map of_char s"

text \<open>
  \<open>str.isspace\<close> on one code point: the characters \<open>str.split()\<close> and \<open>str.strip()\<close>
  treat as whitespace (tab, the line and separator controls, space, NEL, no-break space
  and the Unicode space separators).
\<close>

definition isspace :: "nat \<Rightarrow> bool" where
  "isspace c = (c \<in> {9, 10, 11, 12, 13, 28, 29, 30, 31, 32, 133, 160, 5760,
      8192, 8193, 8194, 8195, 8196, 8197, 8198, 8199, 8200, 8201, 8202,
      8232, 8233, 8239, 8287, 12288})"

text \<open>The line boundaries of \<open>str.splitlines()\<close> other than the pair CR LF.\<close>

definition is_linebreak :: "nat \<Rightarrow> bool" where
  "is_linebreak c = (c \<in> {10, 11, 12, 13, 28, 29, 30, 133, 8232, 8233})"

text \<open>\<open>s.strip()\<close>: leading and trailing whitespace removed.\<close>

definition strip :: "pystr \<Rightarrow> pystr" where
  "strip s = rev (dropWhile isspace (rev (dropWhile isspace s)))"

text \<open>
  \<open>s.split()\<close> with no separator: one left-to-right scan; \<open>w\<close> is the word being
  collected, a whitespace character ends it, and empty words are never produced.
\<close>

fun split_scan :: "pystr \<Rightarrow> pystr \<Rightarrow> pystr list" where
  "split_scan w [] = (if w = [] then [] else [w])"
| "split_scan w (c # cs) =
     (if isspace c then (if w = [] then split_scan [] cs else w # split_scan [] cs)
      else split_scan (w @ [c]) cs)"

definition split :: "pystr \<Rightarrow> pystr list" where
  "split s = split_scan [] s"

text \<open>
  \<open>s.splitlines()\<close>: a line ends at a line boundary, CR LF counts as one boundary,
  the boundaries are not kept, and no empty last line is produced.
\<close>

fun splitlines_scan :: "pystr \<Rightarrow> pystr \<Rightarrow> pystr list" where
  "splitlines_scan l [] = (if l = [] then [] else [l])"
| "splitlines_scan l [c] =
     (if is_linebreak c then [l] else [l @ [c]])"
| "splitlines_scan l (c # d # cs) =
     (if c = 13 \<and> d = 10 then l # splitlines_scan [] cs
      else if is_linebreak c then l # splitlines_scan [] (d # cs)
      else splitlines_scan (l @ [c]) (d # cs))"

definition splitlines :: "pystr \<Rightarrow> pystr list" where
  "splitlines s = splitlines_scan [] s"

text \<open>\<open>s.replace(old, new)\<close> for one-character \<open>old\<close> and \<open>new\<close>.\<close>

definition replace :: "pystr \<Rightarrow> nat \<Rightarrow> nat \<Rightarrow> pystr" where
  "replace s old new = map (\<lambda>c. if c = old then new else c) s"

definition startswith :: "pystr \<Rightarrow> pystr \<Rightarrow> bool" where
  "startswith s prefix = (take (length prefix) s = prefix)"

definition endswith :: "pystr \<Rightarrow> pystr \<Rightarrow> bool" where
  "endswith s suffix =
     (length suffix \<le> length s \<and> drop (length s - length suffix) s = suffix)"

section \<open>Text layout\<close>

text \<open>
  The layout box of \<open>index\<close>, in points. \<open>max_lines\<close> is
  \<open>int((message_top - message_bottom) / line_height)\<close>.
\<close>

definition message_left :: real where "message_left = 230"
definition message_right :: real where "message_right = 670"
definition message_top :: real where "message_top = 700"
definition message_bottom :: real where "message_bottom = 220"
definition line_height :: real where "line_height = 18"

definition max_width :: real where
  "max_width = message_right - message_left"

definition max_lines :: nat where
  "max_lines = nat \<lfloor>(message_top - message_bottom) / line_height\<rfloor>"

text \<open>
  \<open>c.stringWidth(text, font, size)\<close> for a standard Type 1 font: the glyph widths of
  the font's metric table (thousandths of the font size) are summed and scaled by
  \<open>0.001 * size\<close>. The table \<open>glyphs\<close> is a parameter.
\<close>

definition stringWidth :: "(nat \<Rightarrow> nat) \<Rightarrow> pystr \<Rightarrow> real \<Rightarrow> real" where
  "stringWidth glyphs text fontSize = real (sum_list (map glyphs text)) * 0.001 * fontSize"

text \<open>
  The inner loop of the wrap, over the words of one paragraph; the state is the list
  \<open>lines\<close> and the accumulator \<open>current_line\<close>.
\<close>

fun wrap_words :: "(nat \<Rightarrow> nat) \<Rightarrow> pystr list \<Rightarrow> pystr list \<times> pystr \<Rightarrow> pystr list \<times> pystr" where
  "wrap_words glyphs [] (lines, current_line) = (lines, current_line)"
| "wrap_words glyphs (word # words) (lines, current_line) =
     (let test_line = current_line @ word @ [32] in
      if stringWidth glyphs test_line 12 < max_width
      then wrap_words glyphs words (lines, test_line)
      else wrap_words glyphs words
             (if current_line \<noteq> [] then lines @ [strip current_line] else lines,
              word @ [32]))"

text \<open>One round of the outer loop: the paragraph is wrapped and its last line flushed.\<close>

definition wrap_paragraph :: "(nat \<Rightarrow> nat) \<Rightarrow> pystr list \<Rightarrow> pystr \<Rightarrow> pystr list" where
  "wrap_paragraph glyphs lines paragraph =
     (case wrap_words glyphs (split paragraph) (lines, []) of
        (lines', current_line) \<Rightarrow>
          if current_line \<noteq> [] then lines' @ [strip current_line] else lines')"

definition wrap_message :: "(nat \<Rightarrow> nat) \<Rightarrow> pystr \<Rightarrow> pystr list" where
  "wrap_message glyphs message = foldl (wrap_paragraph glyphs) [] (splitlines message)"

text \<open>
  The canvas is the list of the drawing calls made on it, in call order.
\<close>

datatype font = Helvetica | Helvetica_Bold

datatype drawop =
    SetFillColor pystr
  | SetFont font real
  | DrawString real real pystr

text \<open>
  The drawing loop over \<open>enumerate(lines[:max_lines])\<close>: \<open>i\<close> is the line index, and
  the loop is left at the first \<open>current_y\<close> below \<open>message_bottom\<close>.
\<close>

fun draw_lines :: "nat \<Rightarrow> pystr list \<Rightarrow> drawop list \<Rightarrow> drawop list" where
  "draw_lines i [] c = c"
| "draw_lines i (line # rest) c =
     (let current_y = message_top - (real i * line_height) in
      if current_y < message_bottom then c
      else draw_lines (Suc i) rest (c @ [DrawString message_left current_y line]))"

text \<open>
  The rendering step of \<open>index\<close> for the message: the loop runs over the slice
  \<open>lines[:max_lines]\<close>, from line index 0.
\<close>

definition draw_message :: "pystr list \<Rightarrow> drawop list \<Rightarrow> drawop list" where
  "draw_message lines c = draw_lines 0 (take max_lines lines) c"

definition name_y :: "pystr list \<Rightarrow> real" where
  "name_y lines =
     (if lines \<noteq> []
      then (message_top - ((real (length (take max_lines lines)) - 1) * line_height)) - 25
      else 200)"

text \<open>
  The overlay drawn by \<open>index\<close>: the wrapped message, then the signature line, with the
  glyph tables of Helvetica and Helvetica-Bold as parameters.
\<close>

definition draw_card :: "(nat \<Rightarrow> nat) \<Rightarrow> (nat \<Rightarrow> nat) \<Rightarrow> pystr \<Rightarrow> pystr \<Rightarrow> drawop list" where
  "draw_card helvetica helvetica_bold name message =
     (let c = [SetFillColor (py ''#2C3E50''), SetFont Helvetica 12];
          lines = wrap_message helvetica message;
          c = draw_message lines c;
          name_text = py ''- '' @ name;
          c = c @ [SetFont Helvetica_Bold 14];
          name_width = stringWidth helvetica_bold name_text 14;
          name_x = message_right - name_width - 10
      in c @ [DrawString name_x (name_y lines) name_text])"

section \<open>Paths and the file system\<close>

text \<open>
  \<open>os.path.join\<close> and \<open>os.path.dirname\<close> as \<open>posixpath\<close> defines them for two
  components; 47 is the separator \<open>/\<close>.
\<close>

definition join :: "pystr \<Rightarrow> pystr \<Rightarrow> pystr" where
  "join a b =
     (if startswith b [47] then b
      else if a = [] \<or> endswith a [47] then a @ b
      else a @ [47] @ b)"

definition dirname :: "pystr \<Rightarrow> pystr" where
  "dirname p =
     (let head = rev (dropWhile (\<lambda>c. c \<noteq> 47) (rev p)) in
      if head \<noteq> [] \<and> head \<noteq> replicate (length head) 47
      then rev (dropWhile (\<lambda>c. c = 47) (rev head))
      else head)"

text \<open>
  The file system is a list of entries, each a path as the program writes it and what is
  stored there. The empty file system has no entry; \<open>fs_put\<close> and \<open>fs_remove\<close> keep
  at most one entry for a path. Two paths are the same file only when they are the same
  string: links are not modelled. The cards directory itself is taken to exist (the module
  creates it with \<open>os.makedirs\<close> when it is loaded), and \<open>os.remove\<close> of an existing
  regular file is taken to succeed.
\<close>

datatype node = File "nat list" | Dir

type_synonym filesystem = "(pystr \<times> node) list"

definition exists :: "filesystem \<Rightarrow> pystr \<Rightarrow> bool" where
  "exists fs path = (map_of fs path \<noteq> None)"

definition isfile :: "filesystem \<Rightarrow> pystr \<Rightarrow> bool" where
  "isfile fs path = (case map_of fs path of Some (File content) \<Rightarrow> True | _ \<Rightarrow> False)"

definition fs_remove :: "filesystem \<Rightarrow> pystr \<Rightarrow> filesystem" where
  "fs_remove fs path = filter (\<lambda>e. fst e \<noteq> path) fs"

definition fs_put :: "filesystem \<Rightarrow> pystr \<Rightarrow> node \<Rightarrow> filesystem" where
  "fs_put fs path n = (path, n) # fs_remove fs path"

text \<open>
  \<open>os.listdir(d)\<close>: the names of the entries directly inside \<open>d\<close>, in the order the
  file system holds them; \<open>.\<close> and \<open>..\<close> are never listed.
\<close>

definition entry_name :: "pystr \<Rightarrow> pystr \<Rightarrow> pystr option" where
  "entry_name d path =
     (let n = drop (length d + 1) path in
      if take (length d + 1) path = d @ [47] \<and> n \<noteq> [] \<and> 47 \<notin> set n
         \<and> n \<noteq> [46] \<and> n \<noteq> [46, 46]
      then Some n else None)"

definition listdir :: "filesystem \<Rightarrow> pystr \<Rightarrow> pystr list" where
  "listdir fs d = List.map_filter (entry_name d) (map fst fs)"

section \<open>The application\<close>

definition CARDS_FOLDER :: pystr where
  "CARDS_FOLDER = py ''static/cards''"

definition TEMPLATE_PATH :: pystr where
  "TEMPLATE_PATH = py ''Farewell_Card.pdf''"

definition MAX_MESSAGE_CHARS :: nat where
  "MAX_MESSAGE_CHARS = 2000"

text \<open>
  The exceptions the handlers tell apart: \<open>FileNotFoundError\<close>, and any other
  \<open>Exception\<close>.
\<close>

datatype exn = FileNotFoundError | OtherException

text \<open>
  What the PDF libraries and the operating system decide is a parameter of the model:
  the two glyph tables; the first page read from the bytes of the template
  (\<open>PdfReader(TEMPLATE_PATH).pages[0]\<close> and its media box); the document made of the
  template page and the overlay (\<open>c.save()\<close>, \<open>PdfReader(packet)\<close>, \<open>merge_page\<close>,
  \<open>add_page\<close>); whether \<open>open(output_path, "wb")\<close> is refused; and the bytes
  \<open>writer.write(f)\<close> has written when it returns or raises.
\<close>

record ('page, 'doc) libs =
  glyphs_Helvetica :: "nat \<Rightarrow> nat"
  glyphs_Helvetica_Bold :: "nat \<Rightarrow> nat"
  first_page :: "nat list \<Rightarrow> exn + 'page"
  merge_page :: "'page \<Rightarrow> drawop list \<Rightarrow> exn + 'doc"
  open_refused :: "filesystem \<Rightarrow> pystr \<Rightarrow> exn option"
  writer_write :: "'doc \<Rightarrow> nat list \<times> exn option"

datatype request_method = GET | POST

type_synonym form = "pystr \<rightharpoonup> pystr"

definition form_get :: "form \<Rightarrow> pystr \<Rightarrow> pystr \<Rightarrow> pystr" where
  "form_get f key fallback = (case f key of None \<Rightarrow> fallback | Some v \<Rightarrow> v)"

text \<open>
  The error texts of the templates: "Please enter both name and message.", "Message is
  too long. ...", "Error: Required PDF template ... not found.", "Error generating PDF.
  ..." and "Invalid password.".
\<close>

datatype error_text =
    Enter_name_and_message
  | Message_too_long
  | Template_not_found
  | Error_generating_PDF
  | Invalid_password

datatype response =
    Index_error error_text
  | Index_cards "pystr list"
  | Redirect_index
  | Admin_form
  | Admin_error error_text
  | Admin_cards "pystr list"
  | Redirect_admin

definition output_filename :: "pystr \<Rightarrow> pystr" where
  "output_filename name = replace (replace name 32 95) 47 95 @ py ''_farewell_card.pdf''"

text \<open>\<open>sorted([f for f in os.listdir(CARDS_FOLDER) if f.endswith('.pdf')])\<close>\<close>

definition list_cards :: "filesystem \<Rightarrow> pystr list" where
  "list_cards fs = sort (filter (\<lambda>f. endswith f (py ''.pdf'')) (listdir fs CARDS_FOLDER))"

text \<open>
  \<open>PdfReader(TEMPLATE_PATH)\<close>: a missing file raises \<open>FileNotFoundError\<close>, a directory
  another error, and a file is parsed.
\<close>

definition read_template :: "('page, 'doc) libs \<Rightarrow> filesystem \<Rightarrow> exn + 'page" where
  "read_template lib fs =
     (case map_of fs TEMPLATE_PATH of
        None \<Rightarrow> Inl FileNotFoundError
      | Some Dir \<Rightarrow> Inl OtherException
      | Some (File content) \<Rightarrow> first_page lib content)"

text \<open>
  The \<open>try\<close> block of \<open>index\<close>: \<open>Inl\<close> is an exception raised in it, with the file
  system as it is then; \<open>Inr\<close> is the file system after the card is written.
\<close>

definition render_card ::
  "('page, 'doc) libs \<Rightarrow> filesystem \<Rightarrow> pystr \<Rightarrow> pystr \<Rightarrow> pystr \<Rightarrow> (exn \<times> filesystem) + filesystem" where
  "render_card lib fs name message output_path =
     (case read_template lib fs of
        Inl e \<Rightarrow> Inl (e, fs)
      | Inr template_page \<Rightarrow>
          (case merge_page lib template_page
                  (draw_card (glyphs_Helvetica lib) (glyphs_Helvetica_Bold lib) name message) of
             Inl e \<Rightarrow> Inl (e, fs)
           | Inr writer \<Rightarrow>
               (case open_refused lib fs output_path of
                  Some e \<Rightarrow> Inl (e, fs)
                | None \<Rightarrow>
                    (case writer_write lib writer of
                       (content, None) \<Rightarrow> Inr (fs_put fs output_path (File content))
                     | (content, Some e) \<Rightarrow> Inl (e, fs_put fs output_path (File content))))))"

definition index ::
  "('page, 'doc) libs \<Rightarrow> filesystem \<Rightarrow> request_method \<Rightarrow> form \<Rightarrow> response \<times> filesystem" where
  "index lib fs method f =
     (if method = POST then
        (let name = strip (form_get f (py ''name'') []);
             message = strip (form_get f (py ''message'') [])
         in if name = [] \<or> message = [] then (Index_error Enter_name_and_message, fs)
            else if length message > MAX_MESSAGE_CHARS then (Index_error Message_too_long, fs)
            else
              (let output_path = join CARDS_FOLDER (output_filename name) in
               case render_card lib fs name message output_path of
                 Inr fs' \<Rightarrow> (Redirect_index, fs')
               | Inl (FileNotFoundError, fs') \<Rightarrow> (Index_error Template_not_found, fs')
               | Inl (OtherException, fs') \<Rightarrow> (Index_error Error_generating_PDF, fs')))
      else (Index_cards (list_cards fs), fs))"

subsection \<open>The admin password\<close>

text \<open>
  The two environment variables, as \<open>os.getenv\<close> returns them, and the two module
  variables after the start-up code has run. \<open>generate_password_hash\<close> (with the salt it
  draws) is a parameter.
\<close>

record settings =
  ADMIN_PASSWORD :: "pystr option"
  ADMIN_PASSWORD_HASH :: "pystr option"

definition truthy :: "pystr option \<Rightarrow> bool" where
  "truthy v = (case v of None \<Rightarrow> False | Some s \<Rightarrow> s \<noteq> [])"

definition startup :: "(pystr \<Rightarrow> pystr) \<Rightarrow> settings \<Rightarrow> settings" where
  "startup generate_password_hash env =
     (if truthy (ADMIN_PASSWORD_HASH env) then env
      else
        (case ADMIN_PASSWORD env of
           None \<Rightarrow> env\<lparr>ADMIN_PASSWORD_HASH := None\<rparr>
         | Some password \<Rightarrow>
             if password = [] then env\<lparr>ADMIN_PASSWORD_HASH := None\<rparr>
             else if startswith password (py ''pbkdf2:sha256:'')
             then \<lparr>ADMIN_PASSWORD = None, ADMIN_PASSWORD_HASH = Some password\<rparr>
             else \<lparr>ADMIN_PASSWORD = None,
                   ADMIN_PASSWORD_HASH = Some (generate_password_hash password)\<rparr>))"

definition admin :: "settings \<Rightarrow> filesystem \<Rightarrow> request_method \<Rightarrow> form \<Rightarrow> response" where
  "admin cfg fs method f =
     (if method = POST then
        (let password = form_get f (py ''password'') []
         in if Some password \<noteq> ADMIN_PASSWORD cfg then Admin_error Invalid_password
            else Admin_cards (list_cards fs))
      else Admin_form)"

subsection \<open>Deleting a card\<close>

definition delete_card :: "filesystem \<Rightarrow> pystr \<Rightarrow> response \<times> filesystem" where
  "delete_card fs filename =
     (let filepath = join CARDS_FOLDER filename
      in if exists fs filepath \<and> isfile fs filepath \<and> dirname filepath = CARDS_FOLDER
         then (Redirect_admin, fs_remove fs filepath)
         else (Redirect_admin, fs))"

subsection \<open>Concrete libraries and requests\<close>

text \<open>
  One choice of the parameters, for evaluating the handlers on concrete requests: every
  glyph of Helvetica is 500 units wide and every glyph of Helvetica-Bold 600, a page is
  the bytes of its file, a document is the bytes of the template followed by the number of
  drawing calls, \<open>open\<close> is never refused and \<open>writer.write\<close> writes the whole document.
\<close>

definition demo_libs :: "(nat list, nat list) libs" where
  "demo_libs =
     \<lparr>glyphs_Helvetica = (\<lambda>c. 500), glyphs_Helvetica_Bold = (\<lambda>c. 600),
      first_page = (\<lambda>content. Inr content),
      merge_page = (\<lambda>page ops. Inr (page @ [length ops])),
      open_refused = (\<lambda>fs path. None),
      writer_write = (\<lambda>doc. (doc, None))\<rparr>"

definition card_form :: "pystr \<Rightarrow> pystr \<Rightarrow> form" where
  "card_form name message = map_of [(py ''name'', name), (py ''message'', message)]"

definition password_form :: "pystr \<Rightarrow> form" where
  "password_form password = map_of [(py ''password'', password)]"

section \<open>Evaluation of concrete inputs\<close>

lemmas eval_strings = py_def splitlines_def split_def isspace_def is_linebreak_def strip_def
  replace_def startswith_def endswith_def

lemmas eval_layout = stringWidth_def max_width_def message_right_def message_left_def
  wrap_message_def wrap_paragraph_def

lemmas eval_app = index_def form_get_def card_form_def password_form_def
  MAX_MESSAGE_CHARS_def

lemmas eval_render = render_card_def read_template_def demo_libs_def TEMPLATE_PATH_def
  output_filename_def fs_put_def draw_card_def draw_message_def draw_lines.simps name_y_def
  message_top_def message_bottom_def line_height_def listdir_def entry_name_def list_cards_def
  map_filter_simps

lemmas eval_paths = join_def dirname_def CARDS_FOLDER_def exists_def isfile_def fs_remove_def
  delete_card_def

section \<open>Properties of the word wrap\<close>

subsection \<open>Width of the wrapped lines\<close>

lemma sum_dropWhile_le: "sum_list (map g (dropWhile P s)) \<le> sum_list (map (g::nat \<Rightarrow> nat) s)"
  by (induction s) auto

lemma sum_strip_le: "sum_list (map g (strip s)) \<le> sum_list (map (g::nat \<Rightarrow> nat) s)"
proof -
  have "sum_list (map g (strip s)) = sum_list (map g (dropWhile isspace (rev (dropWhile isspace s))))"
    by (simp add: strip_def rev_map [symmetric] sum_list_rev del: rev_map)
  also have "\<dots> \<le> sum_list (map g (rev (dropWhile isspace s)))"
    by (rule sum_dropWhile_le)
  also have "\<dots> = sum_list (map g (dropWhile isspace s))"
    by (simp add: rev_map [symmetric] sum_list_rev del: rev_map)
  also have "\<dots> \<le> sum_list (map g s)"
    by (rule sum_dropWhile_le)
  finally show ?thesis .
qed

lemma stringWidth_strip_le:
  "0 \<le> fs \<Longrightarrow> stringWidth glyphs (strip s) fs \<le> stringWidth glyphs s fs"
  unfolding stringWidth_def
  by (intro mult_right_mono mult_nonneg_nonneg) (simp_all add: sum_strip_le)

lemma stringWidth_Nil: "stringWidth glyphs [] fs = 0"
  by (simp add: stringWidth_def)

lemma max_width_pos: "0 < max_width"
  by (simp add: max_width_def message_right_def message_left_def)

lemma wrap_words_fit:
  assumes "\<forall>w \<in> set ws. stringWidth glyphs (w @ [32]) 12 < max_width"
    and "\<forall>l \<in> set lines. stringWidth glyphs l 12 < max_width"
    and "stringWidth glyphs cur 12 < max_width"
    and "wrap_words glyphs ws (lines, cur) = (lines', cur')"
  shows "(\<forall>l \<in> set lines'. stringWidth glyphs l 12 < max_width) \<and>
         stringWidth glyphs cur' 12 < max_width"
  using assms
proof (induction ws arbitrary: lines cur)
  case Nil
  then show ?case by simp
next
  case (Cons w ws)
  have strip_cur: "stringWidth glyphs (strip cur) 12 < max_width"
    using stringWidth_strip_le [of 12 glyphs cur] Cons.prems(3) by simp
  show ?case
  proof (cases "stringWidth glyphs (cur @ w @ [32]) 12 < max_width")
    case True
    with Cons.prems have "wrap_words glyphs ws (lines, cur @ w @ [32]) = (lines', cur')"
      by simp
    from Cons.IH [OF _ Cons.prems(2) True this] Cons.prems(1) show ?thesis by simp
  next
    case False
    let ?lines = "if cur \<noteq> [] then lines @ [strip cur] else lines"
    from False Cons.prems have run: "wrap_words glyphs ws (?lines, w @ [32]) = (lines', cur')"
      by simp
    have fit: "\<forall>l \<in> set ?lines. stringWidth glyphs l 12 < max_width"
      using Cons.prems(2) strip_cur by auto
    have "stringWidth glyphs (w @ [32]) 12 < max_width"
      using Cons.prems(1) by simp
    from Cons.IH [OF _ fit this run] Cons.prems(1) show ?thesis by simp
  qed
qed

lemma wrap_paragraph_fit:
  assumes "\<forall>w \<in> set (split p). stringWidth glyphs (w @ [32]) 12 < max_width"
    and "\<forall>l \<in> set lines. stringWidth glyphs l 12 < max_width"
  shows "\<forall>l \<in> set (wrap_paragraph glyphs lines p). stringWidth glyphs l 12 < max_width"
proof -
  obtain lines' cur' where run: "wrap_words glyphs (split p) (lines, []) = (lines', cur')"
    by (cases "wrap_words glyphs (split p) (lines, [])")
  have "stringWidth glyphs [] 12 < max_width"
    using max_width_pos by (simp add: stringWidth_Nil)
  from wrap_words_fit [OF assms(1) assms(2) this run]
  have inv: "\<forall>l \<in> set lines'. stringWidth glyphs l 12 < max_width"
    and cur: "stringWidth glyphs cur' 12 < max_width" by simp_all
  have "stringWidth glyphs (strip cur') 12 < max_width"
    using stringWidth_strip_le [of 12 glyphs cur'] cur by simp
  with inv show ?thesis
    by (auto simp: wrap_paragraph_def run)
qed

lemma foldl_wrap_fit:
  assumes "\<forall>p \<in> set ps. \<forall>w \<in> set (split p). stringWidth glyphs (w @ [32]) 12 < max_width"
    and "\<forall>l \<in> set lines. stringWidth glyphs l 12 < max_width"
  shows "\<forall>l \<in> set (foldl (wrap_paragraph glyphs) lines ps). stringWidth glyphs l 12 < max_width"
  using assms
proof (induction ps arbitrary: lines)
  case Nil
  then show ?case by simp
next
  case (Cons p ps)
  have "\<forall>l \<in> set (wrap_paragraph glyphs lines p). stringWidth glyphs l 12 < max_width"
    using wrap_paragraph_fit [of p glyphs lines] Cons.prems by simp
  from Cons.IH [OF _ this] Cons.prems(1) show ?case by simp
qed

text \<open>
  Claim C1. If no word of the message, measured in Helvetica 12 with the one trailing
  space the loop appends, is as wide as \<open>max_width\<close> or wider, then every line the
  wrap produces is narrower than \<open>max_width\<close>.
\<close>

theorem wrapped_lines_fit:
  assumes "\<forall>p \<in> set (splitlines message). \<forall>w \<in> set (split p).
             stringWidth glyphs (w @ [32]) 12 < max_width"
  shows "\<forall>l \<in> set (wrap_message glyphs message). stringWidth glyphs l 12 < max_width"
  unfolding wrap_message_def
  using foldl_wrap_fit [OF assms, of "[]"] by simp

theorem wrapped_lines_fit_witness:
  "stringWidth (\<lambda>c. 10000) (py ''ab'' @ [32]) 12 < max_width \<and>
   stringWidth (\<lambda>c. 10000) (py ''cd'' @ [32]) 12 < max_width \<and>
   wrap_message (\<lambda>c. 10000) (py ''ab cd'') = [py ''ab'', py ''cd''] \<and>
   stringWidth (\<lambda>c. 10000) (py ''ab'') 12 < max_width \<and>
   stringWidth (\<lambda>c. 10000) (py ''cd'') 12 < max_width"
proof -
  have words: "stringWidth (\<lambda>c. 10000) (py ''ab'' @ [32]) 12 < max_width"
    "stringWidth (\<lambda>c. 10000) (py ''cd'' @ [32]) 12 < max_width"
    by (simp_all add: eval_strings eval_layout)
  have h: "\<forall>p \<in> set (splitlines (py ''ab cd'')). \<forall>w \<in> set (split p).
      stringWidth (\<lambda>c. 10000) (w @ [32]) 12 < max_width"
    by (simp add: eval_strings eval_layout)
  have lines: "wrap_message (\<lambda>c. 10000) (py ''ab cd'') = [py ''ab'', py ''cd'']"
    by (simp add: eval_strings eval_layout)
  from wrapped_lines_fit [OF h]
  have "stringWidth (\<lambda>c. 10000) (py ''ab'') 12 < max_width"
    "stringWidth (\<lambda>c. 10000) (py ''cd'') 12 < max_width"
    unfolding lines by simp_all
  with words lines show ?thesis by blast
qed

subsection \<open>Words of the wrapped lines\<close>

lemma split_scan_words:
  "\<forall>c \<in> set a. \<not> isspace c \<Longrightarrow>
   \<forall>w \<in> set (split_scan a s). w \<noteq> [] \<and> (\<forall>c \<in> set w. \<not> isspace c)"
proof (induction s arbitrary: a)
  case Nil
  then show ?case by simp
next
  case (Cons x s)
  show ?case
  proof (cases "isspace x")
    case True
    have "\<forall>w \<in> set (split_scan [] s). w \<noteq> [] \<and> (\<forall>c \<in> set w. \<not> isspace c)"
      by (rule Cons.IH) simp
    with True Cons.prems show ?thesis by simp
  next
    case False
    have "\<forall>w \<in> set (split_scan (a @ [x]) s). w \<noteq> [] \<and> (\<forall>c \<in> set w. \<not> isspace c)"
      by (rule Cons.IH) (use False Cons.prems in simp)
    with False show ?thesis by simp
  qed
qed

lemma split_words: "\<forall>w \<in> set (split s). w \<noteq> [] \<and> (\<forall>c \<in> set w. \<not> isspace c)"
  unfolding split_def by (rule split_scan_words) simp

lemma split_scan_nospace:
  "\<forall>c \<in> set w. \<not> isspace c \<Longrightarrow> split_scan a (w @ r) = split_scan (a @ w) r"
  by (induction w arbitrary: a) simp_all

lemma split_scan_snoc_space:
  "isspace c \<Longrightarrow> split_scan a (s @ [c]) = split_scan a s"
  by (induction s arbitrary: a) simp_all

lemma split_scan_append:
  "isspace c \<Longrightarrow> split_scan a (s @ c # r) = split_scan a (s @ [c]) @ split_scan [] r"
  by (induction s arbitrary: a) simp_all

lemma split_dropWhile: "split (dropWhile isspace s) = split s"
  by (induction s) (auto simp: split_def)

lemma split_rev_dropWhile: "split (rev (dropWhile isspace (rev s))) = split s"
proof (induction s rule: rev_induct)
  case Nil
  then show ?case by simp
next
  case (snoc x xs)
  then show ?case
    by (cases "isspace x") (simp_all add: split_def split_scan_snoc_space)
qed

lemma split_strip: "split (strip s) = split s"
  by (simp add: strip_def split_rev_dropWhile split_dropWhile)

lemma isspace_32: "isspace 32"
  by (simp add: isspace_def)

lemma split_word_space:
  assumes "w \<noteq> []" "\<forall>c \<in> set w. \<not> isspace c"
  shows "split (w @ [32]) = [w]"
  using assms by (simp add: split_def split_scan_nospace isspace_32)

lemma split_line_word:
  assumes "w \<noteq> []" "\<forall>c \<in> set w. \<not> isspace c" "cur = [] \<or> last cur = 32"
  shows "split (cur @ w @ [32]) = split cur @ [w]"
proof (cases "cur = []")
  case True
  with assms show ?thesis by (simp add: split_word_space) (simp add: split_def)
next
  case False
  with assms(3) obtain pre where cur: "cur = pre @ [32]"
    by (metis append_butlast_last_id)
  have "split (cur @ w @ [32]) = split_scan [] (pre @ 32 # (w @ [32]))"
    by (simp add: cur split_def)
  also have "\<dots> = split_scan [] (pre @ [32]) @ split_scan [] (w @ [32])"
    by (rule split_scan_append) (rule isspace_32)
  also have "\<dots> = split cur @ [w]"
    using split_word_space [OF assms(1,2)] by (simp add: cur split_def)
  finally show ?thesis .
qed

lemma wrap_words_keeps_words:
  assumes "\<forall>w \<in> set ws. w \<noteq> [] \<and> (\<forall>c \<in> set w. \<not> isspace c)"
    and "cur = [] \<or> last cur = 32"
    and "wrap_words glyphs ws (lines, cur) = (lines', cur')"
  shows "concat (map split lines') @ split cur' = concat (map split lines) @ split cur @ ws"
  using assms
proof (induction ws arbitrary: lines cur)
  case Nil
  then show ?case by simp
next
  case (Cons w ws)
  have w: "w \<noteq> []" "\<forall>c \<in> set w. \<not> isspace c" and ws: "\<forall>w \<in> set ws. w \<noteq> [] \<and> (\<forall>c \<in> set w. \<not> isspace c)"
    using Cons.prems(1) by simp_all
  show ?case
  proof (cases "stringWidth glyphs (cur @ w @ [32]) 12 < max_width")
    case True
    with Cons.prems have run: "wrap_words glyphs ws (lines, cur @ w @ [32]) = (lines', cur')"
      by simp
    have "cur @ w @ [32] = [] \<or> last (cur @ w @ [32]) = 32" by simp
    from Cons.IH [OF ws this run] show ?thesis
      by (simp add: split_line_word [OF w Cons.prems(2)])
  next
    case False
    let ?lines = "if cur \<noteq> [] then lines @ [strip cur] else lines"
    from False Cons.prems have run: "wrap_words glyphs ws (?lines, w @ [32]) = (lines', cur')"
      by simp
    have flushed: "concat (map split ?lines) = concat (map split lines) @ split cur"
      by (simp add: split_strip) (simp add: split_def)
    have "w @ [32] = [] \<or> last (w @ [32]) = 32" by simp
    from Cons.IH [OF ws this run] show ?thesis
      by (simp add: flushed split_word_space [OF w])
  qed
qed

lemma wrap_paragraph_keeps_words:
  "concat (map split (wrap_paragraph glyphs lines p)) = concat (map split lines) @ split p"
proof -
  obtain lines' cur' where run: "wrap_words glyphs (split p) (lines, []) = (lines', cur')"
    by (cases "wrap_words glyphs (split p) (lines, [])")
  have "concat (map split lines') @ split cur' = concat (map split lines) @ split [] @ split p"
    by (rule wrap_words_keeps_words [OF split_words _ run]) simp
  moreover have "split [] = []" by (simp add: split_def)
  moreover have "split (strip cur') = split cur'" by (rule split_strip)
  ultimately show ?thesis
    by (cases "cur' = []") (simp_all add: wrap_paragraph_def run)
qed

text \<open>
  Claim C2. For every paragraph, the whitespace-split words of its wrapped lines, taken
  in order, are exactly the whitespace-split words of the paragraph.
\<close>

theorem wrap_preserves_words:
  "concat (map split (wrap_paragraph glyphs [] paragraph)) = split paragraph"
  using wrap_paragraph_keeps_words [of glyphs "[]" "paragraph"] by simp

subsection \<open>Paragraphs\<close>

lemma wrap_words_lines:
  "wrap_words glyphs ws (lines, cur) =
     (lines @ fst (wrap_words glyphs ws ([], cur)), snd (wrap_words glyphs ws ([], cur)))"
proof (induction ws arbitrary: lines cur)
  case Nil
  then show ?case by simp
next
  case (Cons w ws)
  show ?case
  proof (cases "stringWidth glyphs (cur @ w @ [32]) 12 < max_width")
    case True
    then show ?thesis using Cons.IH [of lines "cur @ w @ [32]"] by (simp add: Let_def)
  next
    case False
    show ?thesis
    proof (cases "cur = []")
      case True
      with False show ?thesis using Cons.IH [of lines "w @ [32]"] by (simp add: Let_def)
    next
      case nonempty: False
      with False show ?thesis
        using Cons.IH [of "lines @ [strip cur]" "w @ [32]"] Cons.IH [of "[strip cur]" "w @ [32]"]
        by (simp add: Let_def)
    qed
  qed
qed

lemma wrap_paragraph_lines:
  "wrap_paragraph glyphs lines p = lines @ wrap_paragraph glyphs [] p"
  unfolding wrap_paragraph_def
  by (subst wrap_words_lines) (simp add: case_prod_beta)

lemma foldl_wrap_paragraph:
  "foldl (wrap_paragraph glyphs) lines ps = lines @ concat (map (wrap_paragraph glyphs []) ps)"
proof (induction ps arbitrary: lines)
  case Nil
  then show ?case by simp
next
  case (Cons p ps)
  show ?case
    by (simp add: Cons.IH [of "wrap_paragraph glyphs lines p"])
       (subst wrap_paragraph_lines, simp)
qed

lemma wrap_paragraph_no_words:
  "split p = [] \<Longrightarrow> wrap_paragraph glyphs [] p = []"
  by (simp add: wrap_paragraph_def)

text \<open>
  Claim C7. The message is split into paragraphs at its line breaks and each paragraph
  is wrapped on its own: the lines of the message are the lines of the first paragraph,
  then those of the second, and so on; the lines of a paragraph hold the words of that
  paragraph and no other; a paragraph without words (an empty one, between two
  consecutive line breaks) gives no line.
\<close>

theorem wrap_paragraphs_apart:
  "wrap_message glyphs message = concat (map (wrap_paragraph glyphs []) (splitlines message)) \<and>
   (\<forall>p. concat (map split (wrap_paragraph glyphs [] p)) = split p \<and>
        (split p = [] \<longrightarrow> wrap_paragraph glyphs [] p = []))"
  using wrap_paragraph_keeps_words [of glyphs "[]"]
  by (simp add: wrap_message_def foldl_wrap_paragraph wrap_paragraph_no_words)

theorem wrap_paragraphs_apart_witness:
  "wrap_message (\<lambda>c. 10000) (py ''ab cd'' @ [10, 10] @ py ''ef'')
     = [py ''ab'', py ''cd'', py ''ef''] \<and>
   splitlines (py ''ab cd'' @ [10, 10] @ py ''ef'') = [py ''ab cd'', [], py ''ef''] \<and>
   split [] = [] \<and> wrap_paragraph (\<lambda>c. 10000) [] [] = []"
  using wrap_paragraphs_apart [of "\<lambda>c. 10000" "py ''ab cd'' @ [10, 10] @ py ''ef''"]
  by (simp add: eval_strings eval_layout)

section \<open>Drawing the wrapped lines\<close>

lemma max_lines_26: "max_lines = 26"
  by (simp add: max_lines_def message_top_def message_bottom_def line_height_def)

lemma draw_lines_within:
  "i + length ls \<le> 26 \<Longrightarrow>
   draw_lines i ls c =
     c @ map (\<lambda>(i, line). DrawString message_left (message_top - real i * line_height) line)
           (enumerate i ls)"
proof (induction ls arbitrary: i c)
  case Nil
  then show ?case by simp
next
  case (Cons l ls)
  from Cons.prems have "real i \<le> 25" by simp
  then have above: "\<not> message_top - real i * line_height < message_bottom"
    by (simp add: message_top_def message_bottom_def line_height_def)
  from Cons.prems have "Suc i + length ls \<le> 26" by simp
  from Cons.IH [OF this] above show ?case by (simp add: Let_def)
qed

lemma draw_message_eq:
  "draw_message lines c =
     c @ map (\<lambda>(i, line). DrawString message_left (message_top - real i * line_height) line)
           (enumerate 0 (take max_lines lines))"
proof -
  have "0 + length (take max_lines lines) \<le> 26"
    by (simp add: max_lines_26)
  from draw_lines_within [OF this] show ?thesis
    by (simp add: draw_message_def)
qed

text \<open>
  Claim C5. Whatever the wrapped lines are, the rendering step adds to the canvas the first
  \<open>max_lines\<close> of them and no more, line \<open>i\<close> (from 0) at
  \<open>y = message_top - i * line_height\<close>; the lines beyond are dropped, and the step has no
  error result. \<open>max_lines\<close> is the floor of \<open>(message_top - message_bottom) / line_height\<close>,
  which is 26. The overlay of a card is therefore the colour and font settings, at most
  \<open>max_lines\<close> lines of the wrapped message, and the signature.
\<close>

theorem at_most_max_lines_drawn:
  "draw_message lines c =
     c @ map (\<lambda>(i, line). DrawString message_left (message_top - real i * line_height) line)
           (enumerate 0 (take max_lines lines)) \<and>
   length (draw_message lines c) = length c + min (length lines) max_lines \<and>
   length (draw_message lines c) \<le> length c + max_lines \<and>
   max_lines = nat \<lfloor>(message_top - message_bottom) / line_height\<rfloor> \<and>
   max_lines = 26 \<and>
   draw_card helvetica helvetica_bold name message =
     [SetFillColor (py ''#2C3E50''), SetFont Helvetica 12] @
     map (\<lambda>(i, line). DrawString message_left (message_top - real i * line_height) line)
       (enumerate 0 (take max_lines (wrap_message helvetica message))) @
     [SetFont Helvetica_Bold 14,
      DrawString (message_right - stringWidth helvetica_bold (py ''- '' @ name) 14 - 10)
        (name_y (wrap_message helvetica message)) (py ''- '' @ name)] \<and>
   length (draw_card helvetica helvetica_bold name message) \<le> max_lines + 4"
proof -
  have card: "draw_card helvetica helvetica_bold name message =
     [SetFillColor (py ''#2C3E50''), SetFont Helvetica 12] @
     map (\<lambda>(i, line). DrawString message_left (message_top - real i * line_height) line)
       (enumerate 0 (take max_lines (wrap_message helvetica message))) @
     [SetFont Helvetica_Bold 14,
      DrawString (message_right - stringWidth helvetica_bold (py ''- '' @ name) 14 - 10)
        (name_y (wrap_message helvetica message)) (py ''- '' @ name)]"
    by (simp add: draw_card_def Let_def draw_message_eq)
  have "length (draw_card helvetica helvetica_bold name message) \<le> max_lines + 4"
    unfolding card by simp
  with card show ?thesis
    by (simp add: draw_message_eq max_lines_def [symmetric] max_lines_26)
qed

theorem at_most_max_lines_drawn_witness:
  "length (draw_message (replicate 30 (py ''a'')) []) = 26 \<and>
   draw_message [py ''ab'', py ''cd''] [] =
     [DrawString 230 700 (py ''ab''), DrawString 230 682 (py ''cd'')]"
proof -
  have many: "length (draw_message (replicate 30 (py ''a'')) []) =
      length ([] :: drawop list) + min (length (replicate 30 (py ''a''))) max_lines"
    using at_most_max_lines_drawn [of "replicate 30 (py ''a'')" "[]"] by (rule conjunct2 [THEN conjunct1])
  have two: "draw_message [py ''ab'', py ''cd''] [] =
      [] @ map (\<lambda>(i, line). DrawString message_left (message_top - real i * line_height) line)
             (enumerate 0 (take max_lines [py ''ab'', py ''cd'']))"
    using at_most_max_lines_drawn [of "[py ''ab'', py ''cd'']" "[]"] by (rule conjunct1)
  have "length (draw_message (replicate 30 (py ''a'')) []) = 26"
    unfolding many by (simp add: max_lines_26)
  moreover have "draw_message [py ''ab'', py ''cd''] [] =
     [DrawString 230 700 (py ''ab''), DrawString 230 682 (py ''cd'')]"
    unfolding two by (simp add: max_lines_26 message_left_def message_top_def line_height_def)
  ultimately show ?thesis by (rule conjI)
qed

section \<open>Validation of a submission\<close>

lemma strip_replicate: "\<not> isspace c \<Longrightarrow> strip (replicate n c) = replicate n c"
  by (simp add: strip_def dropWhile_replicate)

text \<open>
  Claim C4. A POST whose trimmed name is empty, whose trimmed message is empty, or whose
  trimmed message has more than 2000 characters is answered with a validation error, and
  the file system is left as it was.
\<close>

theorem invalid_submission_rejected:
  assumes "strip (form_get f (py ''name'') []) = [] \<or>
           strip (form_get f (py ''message'') []) = [] \<or>
           length (strip (form_get f (py ''message'') [])) > 2000"
  shows "index lib fs POST f =
           (Index_error
              (if strip (form_get f (py ''name'') []) = [] \<or>
                  strip (form_get f (py ''message'') []) = []
               then Enter_name_and_message else Message_too_long), fs)"
  using assms by (auto simp: index_def Let_def MAX_MESSAGE_CHARS_def)

theorem invalid_submission_rejected_witness:
  "index demo_libs [] POST (card_form (py ''  '') (py ''Bye'')) =
     (Index_error Enter_name_and_message, []) \<and>
   index demo_libs [] POST (card_form (py ''Ada'') (py '' '')) =
     (Index_error Enter_name_and_message, []) \<and>
   index demo_libs [] POST (card_form (py ''Ada'') (replicate 2001 97)) =
     (Index_error Message_too_long, [])"
proof -
  have not_space: "\<not> isspace 97" by (simp add: isspace_def)
  have 1: "strip (form_get (card_form (py ''  '') (py ''Bye'')) (py ''name'') []) = []"
    by (simp add: eval_app eval_strings)
  have 2: "strip (form_get (card_form (py ''Ada'') (py '' '')) (py ''message'') []) = []"
    by (simp add: eval_app eval_strings)
  have 3: "length (strip (form_get (card_form (py ''Ada'') (replicate 2001 97)) (py ''message'') [])) > 2000"
    by (simp add: form_get_def card_form_def py_def strip_replicate [OF not_space])
  have n3: "strip (form_get (card_form (py ''Ada'') (replicate 2001 97)) (py ''name'') []) \<noteq> []"
    by (simp add: eval_app eval_strings)
  have m3: "strip (form_get (card_form (py ''Ada'') (replicate 2001 97)) (py ''message'') []) \<noteq> []"
    using 3 by auto
  have m1: "strip (form_get (card_form (py ''  '') (py ''Bye'')) (py ''name'') []) = []" by (rule 1)
  show ?thesis
    using invalid_submission_rejected [of "card_form (py ''  '') (py ''Bye'')" demo_libs "[]"]
      invalid_submission_rejected [of "card_form (py ''Ada'') (py '' '')" demo_libs "[]"]
      invalid_submission_rejected [of "card_form (py ''Ada'') (replicate 2001 97)" demo_libs "[]"]
      1 2 3 n3 m3
    by simp
qed

section \<open>Rendering and writing a card\<close>

lemma index_valid:
  assumes "strip (form_get f (py ''name'') []) \<noteq> []"
    and "strip (form_get f (py ''message'') []) \<noteq> []"
    and "length (strip (form_get f (py ''message'') [])) \<le> 2000"
  shows "index lib fs POST f =
     (case render_card lib fs (strip (form_get f (py ''name'') []))
             (strip (form_get f (py ''message'') []))
             (join CARDS_FOLDER (output_filename (strip (form_get f (py ''name'') [])))) of
        Inr fs' \<Rightarrow> (Redirect_index, fs')
      | Inl (FileNotFoundError, fs') \<Rightarrow> (Index_error Template_not_found, fs')
      | Inl (OtherException, fs') \<Rightarrow> (Index_error Error_generating_PDF, fs'))"
  using assms by (simp add: index_def Let_def MAX_MESSAGE_CHARS_def)

lemma render_card_template_fault:
  "read_template lib fs = Inl e \<Longrightarrow> render_card lib fs name message path = Inl (e, fs)"
  by (simp add: render_card_def)

lemma render_card_merge_fault:
  "read_template lib fs = Inr pg \<Longrightarrow>
   merge_page lib pg (draw_card (glyphs_Helvetica lib) (glyphs_Helvetica_Bold lib) name message) = Inl e \<Longrightarrow>
   render_card lib fs name message path = Inl (e, fs)"
  by (simp add: render_card_def)

lemma read_template_missing:
  "map_of fs TEMPLATE_PATH = None \<Longrightarrow> read_template lib fs = Inl FileNotFoundError"
  by (simp add: read_template_def)

lemma render_card_changes:
  assumes "render_card lib fs name message path = r"
    and "(case r of Inl (e, fs') \<Rightarrow> fs' | Inr fs' \<Rightarrow> fs') \<noteq> fs"
  shows "\<exists>pg doc. read_template lib fs = Inr pg \<and>
           merge_page lib pg (draw_card (glyphs_Helvetica lib) (glyphs_Helvetica_Bold lib) name message) = Inr doc \<and>
           open_refused lib fs path = None"
  using assms
  by (auto simp: render_card_def split: sum.splits option.splits prod.splits)

lemma index_invalid:
  assumes "\<not> (strip (form_get f (py ''name'') []) \<noteq> [] \<and>
              strip (form_get f (py ''message'') []) \<noteq> [] \<and>
              length (strip (form_get f (py ''message'') [])) \<le> 2000)"
  shows "snd (index lib fs POST f) = fs"
  using assms by (auto simp: index_def Let_def MAX_MESSAGE_CHARS_def)

lemma index_changes:
  assumes "snd (index lib fs POST f) \<noteq> fs"
  shows "\<exists>pg doc. read_template lib fs = Inr pg \<and>
           merge_page lib pg
             (draw_card (glyphs_Helvetica lib) (glyphs_Helvetica_Bold lib)
                (strip (form_get f (py ''name'') [])) (strip (form_get f (py ''message'') [])))
             = Inr doc \<and>
           open_refused lib fs
             (join CARDS_FOLDER (output_filename (strip (form_get f (py ''name'') [])))) = None"
proof -
  let ?r = "render_card lib fs (strip (form_get f (py ''name'') []))
             (strip (form_get f (py ''message'') []))
             (join CARDS_FOLDER (output_filename (strip (form_get f (py ''name'') []))))"
  from assms have valid: "strip (form_get f (py ''name'') []) \<noteq> []"
      "strip (form_get f (py ''message'') []) \<noteq> []"
      "length (strip (form_get f (py ''message'') [])) \<le> 2000"
    using index_invalid [of f lib fs] by auto
  from assms have "(case ?r of Inl (e, fs') \<Rightarrow> fs' | Inr fs' \<Rightarrow> fs') \<noteq> fs"
    by (simp add: index_valid [OF valid] split: sum.splits prod.splits exn.splits)
  from render_card_changes [OF refl this] show ?thesis .
qed

text \<open>
  Claim C9, amended. A submission writes to the file system only after the template has been
  read, the overlay merged and \<open>open\<close> accepted, so no fault before that leaves an output
  file, whatever the submission. For a submission that passes validation: a missing
  template file is reported as "template not found"; any other exception raised while the
  template is read or the overlay is drawn and merged is reported as the generic rendering
  error.
\<close>

theorem render_faults_reported:
  "(snd (index lib fs POST f) \<noteq> fs \<longrightarrow>
      (\<exists>pg doc. read_template lib fs = Inr pg \<and>
         merge_page lib pg
           (draw_card (glyphs_Helvetica lib) (glyphs_Helvetica_Bold lib)
              (strip (form_get f (py ''name'') [])) (strip (form_get f (py ''message'') [])))
           = Inr doc \<and>
         open_refused lib fs
           (join CARDS_FOLDER (output_filename (strip (form_get f (py ''name'') [])))) = None)) \<and>
   (strip (form_get f (py ''name'') []) \<noteq> [] \<and>
    strip (form_get f (py ''message'') []) \<noteq> [] \<and>
    length (strip (form_get f (py ''message'') [])) \<le> 2000 \<longrightarrow>
      (map_of fs TEMPLATE_PATH = None \<longrightarrow>
         index lib fs POST f = (Index_error Template_not_found, fs)) \<and>
      (read_template lib fs = Inl OtherException \<longrightarrow>
         index lib fs POST f = (Index_error Error_generating_PDF, fs)) \<and>
      (\<forall>pg. read_template lib fs = Inr pg \<and>
         merge_page lib pg
           (draw_card (glyphs_Helvetica lib) (glyphs_Helvetica_Bold lib)
              (strip (form_get f (py ''name'') [])) (strip (form_get f (py ''message'') [])))
           = Inl OtherException \<longrightarrow>
         index lib fs POST f = (Index_error Error_generating_PDF, fs)))"
proof -
  have written: "snd (index lib fs POST f) \<noteq> fs \<longrightarrow>
      (\<exists>pg doc. read_template lib fs = Inr pg \<and>
         merge_page lib pg
           (draw_card (glyphs_Helvetica lib) (glyphs_Helvetica_Bold lib)
              (strip (form_get f (py ''name'') [])) (strip (form_get f (py ''message'') [])))
           = Inr doc \<and>
         open_refused lib fs
           (join CARDS_FOLDER (output_filename (strip (form_get f (py ''name'') [])))) = None)"
    using index_changes [of lib fs f] by blast
  have reported: "(map_of fs TEMPLATE_PATH = None \<longrightarrow>
         index lib fs POST f = (Index_error Template_not_found, fs)) \<and>
      (read_template lib fs = Inl OtherException \<longrightarrow>
         index lib fs POST f = (Index_error Error_generating_PDF, fs)) \<and>
      (\<forall>pg. read_template lib fs = Inr pg \<and>
         merge_page lib pg
           (draw_card (glyphs_Helvetica lib) (glyphs_Helvetica_Bold lib)
              (strip (form_get f (py ''name'') [])) (strip (form_get f (py ''message'') [])))
           = Inl OtherException \<longrightarrow>
         index lib fs POST f = (Index_error Error_generating_PDF, fs))"
    if valid: "strip (form_get f (py ''name'') []) \<noteq> []"
      "strip (form_get f (py ''message'') []) \<noteq> []"
      "length (strip (form_get f (py ''message'') [])) \<le> 2000"
    by (simp add: index_valid [OF valid] render_card_template_fault read_template_missing
        render_card_merge_fault)
  from written reported show ?thesis by blast
qed

theorem render_faults_reported_witness:
  "index demo_libs [] POST (card_form (py ''Ada Lovelace'') (py ''Bye'')) =
     (Index_error Template_not_found, []) \<and>
   index demo_libs [(TEMPLATE_PATH, Dir)] POST (card_form (py ''Ada Lovelace'') (py ''Bye'')) =
     (Index_error Error_generating_PDF, [(TEMPLATE_PATH, Dir)]) \<and>
   index (demo_libs\<lparr>merge_page := \<lambda>page ops. Inl OtherException\<rparr>)
      [(TEMPLATE_PATH, File [37, 80, 68, 70])] POST (card_form (py ''Ada Lovelace'') (py ''Bye'')) =
     (Index_error Error_generating_PDF, [(TEMPLATE_PATH, File [37, 80, 68, 70])])"
proof -
  let ?f = "card_form (py ''Ada Lovelace'') (py ''Bye'')"
  have v: "strip (form_get ?f (py ''name'') []) \<noteq> [] \<and>
      strip (form_get ?f (py ''message'') []) \<noteq> [] \<and>
      length (strip (form_get ?f (py ''message'') [])) \<le> 2000"
    by (simp add: eval_app eval_strings)
  have a: "map_of [] TEMPLATE_PATH = None" by simp
  have b: "read_template demo_libs [(TEMPLATE_PATH, Dir)] = Inl OtherException"
    by (simp add: read_template_def)
  have c: "read_template (demo_libs\<lparr>merge_page := \<lambda>page ops. Inl OtherException\<rparr>)
             [(TEMPLATE_PATH, File [37, 80, 68, 70])] = Inr [37, 80, 68, 70]"
    by (simp add: read_template_def demo_libs_def)
  have d: "merge_page (demo_libs\<lparr>merge_page := \<lambda>page ops. Inl OtherException\<rparr>) pg ops
             = Inl OtherException" for pg ops
    by simp
  show ?thesis
    using render_faults_reported [of demo_libs "[]" ?f]
      render_faults_reported [of demo_libs "[(TEMPLATE_PATH, Dir)]" ?f]
      render_faults_reported [of "demo_libs\<lparr>merge_page := \<lambda>page ops. Inl OtherException\<rparr>"
        "[(TEMPLATE_PATH, File [37, 80, 68, 70])]" ?f]
      v a b c d
    by blast
qed

text \<open>
  Claim C9 as stated, for every submission, fails: with the template missing, a submission
  with an empty name is answered with the validation error, not with "template not found".
\<close>

theorem template_missing_invalid_counterexample:
  "map_of [] TEMPLATE_PATH = None \<and>
   index demo_libs [] POST (card_form [] (py ''Bye'')) = (Index_error Enter_name_and_message, [])
   \<and> Index_error Enter_name_and_message \<noteq> Index_error Template_not_found"
  by (simp add: eval_app eval_strings)

section \<open>The written card and the listing\<close>

lemma map_of_fs_remove: "map_of (fs_remove fs p) q = (if q = p then None else map_of fs q)"
  by (induction fs) (auto simp: fs_remove_def)

lemma map_of_fs_put: "map_of (fs_put fs p n) q = (if q = p then Some n else map_of fs q)"
  by (simp add: fs_put_def map_of_fs_remove)

lemma CARDS_FOLDER_eq: "CARDS_FOLDER = [115, 116, 97, 116, 105, 99, 47, 99, 97, 114, 100, 115]"
  by (simp add: CARDS_FOLDER_def py_def)

lemma join_CARDS_FOLDER:
  "47 \<notin> set filename \<Longrightarrow> join CARDS_FOLDER filename = CARDS_FOLDER @ 47 # filename"
  by (cases filename) (simp_all add: join_def startswith_def endswith_def CARDS_FOLDER_eq)

lemma entry_name_CARDS_FOLDER:
  "47 \<notin> set n \<Longrightarrow> n \<noteq> [] \<Longrightarrow> n \<noteq> [46] \<Longrightarrow> n \<noteq> [46, 46] \<Longrightarrow>
   entry_name CARDS_FOLDER (CARDS_FOLDER @ 47 # n) = Some n"
  by (simp add: entry_name_def Let_def)

lemma listdir_fs_put:
  "entry_name d p = Some n \<Longrightarrow> n \<in> set (listdir (fs_put fs p node) d)"
  by (simp add: listdir_def fs_put_def map_filter_simps)

lemma output_filename_eq:
  "output_filename name =
     map (\<lambda>c. if c = 32 \<or> c = 47 then 95 else c) name @ py ''_farewell_card.pdf''"
  by (simp add: output_filename_def replace_def)

lemma output_filename_no_slash: "47 \<notin> set (output_filename name)"
  by (auto simp: output_filename_eq py_def)

lemma output_filename_long: "18 \<le> length (output_filename name)"
  by (simp add: output_filename_eq py_def)

lemma output_filename_pdf: "endswith (output_filename name) (py ''.pdf'')"
  by (simp add: output_filename_eq endswith_def py_def)

lemma output_filename_listed:
  "output_filename name \<in>
     set (list_cards (fs_put fs (join CARDS_FOLDER (output_filename name)) node))"
proof -
  let ?n = "output_filename name"
  have len: "18 \<le> length ?n" by (rule output_filename_long)
  then have ne: "?n \<noteq> []" "?n \<noteq> [46]" "?n \<noteq> [46, 46]" by auto
  have "entry_name CARDS_FOLDER (CARDS_FOLDER @ 47 # ?n) = Some ?n"
    by (rule entry_name_CARDS_FOLDER [OF output_filename_no_slash ne])
  then have "?n \<in> set (listdir (fs_put fs (CARDS_FOLDER @ 47 # ?n) node) CARDS_FOLDER)"
    by (rule listdir_fs_put)
  then show ?thesis
    by (simp add: list_cards_def join_CARDS_FOLDER [OF output_filename_no_slash]
        output_filename_pdf)
qed

lemma render_card_written:
  "render_card lib fs name message path = Inr fs' \<Longrightarrow>
   \<exists>content. fs' = fs_put fs path (File content)"
  by (auto simp: render_card_def split: sum.splits option.splits prod.splits)

lemma index_redirect:
  assumes "index lib fs POST f = (Redirect_index, fs')"
  shows "render_card lib fs (strip (form_get f (py ''name'') []))
             (strip (form_get f (py ''message'') []))
             (join CARDS_FOLDER (output_filename (strip (form_get f (py ''name'') [])))) = Inr fs'"
  using assms
  by (auto simp: index_def Let_def split: if_splits sum.splits prod.splits exn.splits)

text \<open>
  Claim C8, amended. When a submission is answered with the redirect to the index, that is,
  when the card has been rendered and written: the output file name is the trimmed name with
  every space and every \<open>/\<close> replaced by an underscore, followed by
  \<open>_farewell_card.pdf\<close>; a file of that name is in the cards directory; and the listing
  of the following GET is sorted and contains that name.
\<close>

theorem written_card_listed:
  assumes "index lib fs POST f = (Redirect_index, fs')"
  shows "output_filename (strip (form_get f (py ''name'') [])) =
           map (\<lambda>c. if c = 32 \<or> c = 47 then 95 else c) (strip (form_get f (py ''name'') []))
             @ py ''_farewell_card.pdf'' \<and>
         (\<exists>content. map_of fs'
             (CARDS_FOLDER @ [47] @ output_filename (strip (form_get f (py ''name'') [])))
               = Some (File content)) \<and>
         index lib fs' GET g = (Index_cards (list_cards fs'), fs') \<and>
         sorted (list_cards fs') \<and>
         output_filename (strip (form_get f (py ''name'') [])) \<in> set (list_cards fs')"
proof -
  let ?n = "output_filename (strip (form_get f (py ''name'') []))"
  from render_card_written [OF index_redirect [OF assms]]
  obtain content where fs': "fs' = fs_put fs (join CARDS_FOLDER ?n) (File content)"
    by blast
  have "map_of fs' (CARDS_FOLDER @ [47] @ ?n) = Some (File content)"
    by (simp add: fs' map_of_fs_put join_CARDS_FOLDER [OF output_filename_no_slash])
  moreover have "?n \<in> set (list_cards fs')"
    unfolding fs' by (rule output_filename_listed)
  moreover have "sorted (list_cards fs')"
    by (simp add: list_cards_def)
  moreover have "index lib fs' GET g = (Index_cards (list_cards fs'), fs')"
    by (simp add: index_def)
  ultimately show ?thesis
    by (simp add: output_filename_eq)
qed

theorem written_card_listed_witness:
  "index demo_libs
     [(TEMPLATE_PATH, File [37, 80, 68, 70]), (py ''static/cards/Zed_farewell_card.pdf'', File [])]
     POST (card_form (py ''Ada Lovelace'') (py ''Bye'')) =
   (Redirect_index,
    [(py ''static/cards/Ada_Lovelace_farewell_card.pdf'', File [37, 80, 68, 70, 5]),
     (TEMPLATE_PATH, File [37, 80, 68, 70]),
     (py ''static/cards/Zed_farewell_card.pdf'', File [])]) \<and>
   output_filename (py ''Ada Lovelace'') = py ''Ada_Lovelace_farewell_card.pdf'' \<and>
   list_cards
    [(py ''static/cards/Ada_Lovelace_farewell_card.pdf'', File [37, 80, 68, 70, 5]),
     (TEMPLATE_PATH, File [37, 80, 68, 70]),
     (py ''static/cards/Zed_farewell_card.pdf'', File [])] =
   [py ''Ada_Lovelace_farewell_card.pdf'', py ''Zed_farewell_card.pdf''] \<and>
   sorted (list_cards
    [(py ''static/cards/Ada_Lovelace_farewell_card.pdf'', File [37, 80, 68, 70, 5]),
     (TEMPLATE_PATH, File [37, 80, 68, 70]),
     (py ''static/cards/Zed_farewell_card.pdf'', File [])])"
proof -
  let ?fs = "[(TEMPLATE_PATH, File [37, 80, 68, 70]), (py ''static/cards/Zed_farewell_card.pdf'', File [])]"
  let ?fs' = "[(py ''static/cards/Ada_Lovelace_farewell_card.pdf'', File [37, 80, 68, 70, 5]),
     (TEMPLATE_PATH, File [37, 80, 68, 70]),
     (py ''static/cards/Zed_farewell_card.pdf'', File [])]"
  have run: "index demo_libs ?fs POST (card_form (py ''Ada Lovelace'') (py ''Bye'')) =
      (Redirect_index, ?fs')"
    by (simp add: eval_app eval_strings eval_layout eval_render eval_paths max_lines_26 Let_def)
  have name: "output_filename (py ''Ada Lovelace'') = py ''Ada_Lovelace_farewell_card.pdf''"
    by (simp add: output_filename_def eval_strings)
  have listing: "list_cards ?fs' = [py ''Ada_Lovelace_farewell_card.pdf'', py ''Zed_farewell_card.pdf'']"
    by (simp add: eval_render eval_paths eval_strings Let_def)
  from written_card_listed [OF run] run name listing show ?thesis
    by blast
qed

text \<open>
  Claim C8 as stated, for every valid submission, fails: a valid submission made while the
  template is missing writes nothing, and the listing does not contain its file name.
\<close>

theorem valid_submission_unlisted_counterexample:
  "strip (form_get (card_form (py ''Ada Lovelace'') (py ''Bye'')) (py ''name'') []) \<noteq> [] \<and>
   strip (form_get (card_form (py ''Ada Lovelace'') (py ''Bye'')) (py ''message'') []) \<noteq> [] \<and>
   length (strip (form_get (card_form (py ''Ada Lovelace'') (py ''Bye'')) (py ''message'') []))
     \<le> MAX_MESSAGE_CHARS \<and>
   index demo_libs [] POST (card_form (py ''Ada Lovelace'') (py ''Bye'')) =
     (Index_error Template_not_found, []) \<and>
   output_filename (py ''Ada Lovelace'') \<notin>
     set (list_cards (snd (index demo_libs [] POST (card_form (py ''Ada Lovelace'') (py ''Bye'')))))"
  by (simp add: eval_app eval_strings eval_render Let_def)

section \<open>Deleting a card\<close>

lemma replicate_all_same: "h = replicate n x \<Longrightarrow> c \<in> set h \<Longrightarrow> c = x"
  by auto

lemma upto_last_slash:
  assumes "47 \<notin> set b"
  shows "rev (dropWhile (\<lambda>c. c \<noteq> 47) (rev (a @ 47 # b))) = a @ [47::nat]"
proof -
  have "dropWhile (\<lambda>c. c \<noteq> 47) (rev b @ 47 # rev a) = dropWhile (\<lambda>c. c \<noteq> 47) (47 # rev a)"
    using assms by (intro dropWhile_append2) auto
  then show ?thesis by simp
qed

lemma rstrip_slash_keep:
  assumes "\<exists>c \<in> set ys. c \<noteq> (47::nat)"
  shows "\<exists>zs. zs \<noteq> [] \<and> rev (dropWhile (\<lambda>c. c = 47) (rev (xs @ ys))) = xs @ zs"
proof -
  from assms obtain c where c: "c \<in> set (rev ys)" "\<not> c = 47" by auto
  then have "dropWhile (\<lambda>c. c = 47) (rev ys @ rev xs) = dropWhile (\<lambda>c. c = 47) (rev ys) @ rev xs"
    by (intro dropWhile_append1) auto
  moreover have "dropWhile (\<lambda>c. c = 47) (rev ys) \<noteq> []"
    using c by (auto simp: dropWhile_eq_Nil_conv)
  ultimately show ?thesis by simp
qed

lemma rstrip_slash_hd:
  assumes "rev (dropWhile P (rev h)) \<noteq> []"
  shows "hd (rev (dropWhile P (rev h))) = hd h"
proof -
  have "rev (takeWhile P (rev h) @ dropWhile P (rev h)) = h" by simp
  then have "rev (dropWhile P (rev h)) @ rev (takeWhile P (rev h)) = h"
    by (simp only: rev_append)
  with assms show ?thesis by (metis hd_append2)
qed

lemma dirname_nonempty_hd:
  assumes "p \<noteq> []" "hd p = 47" "dirname p \<noteq> []"
  shows "hd (dirname p) = 47"
proof -
  let ?head = "rev (dropWhile (\<lambda>c. c \<noteq> 47) (rev p))"
  have hd_head: "?head \<noteq> [] \<Longrightarrow> hd ?head = 47"
    using rstrip_slash_hd [of "\<lambda>c. c \<noteq> 47" p] assms(2) by simp
  show ?thesis
  proof (cases "?head \<noteq> [] \<and> ?head \<noteq> replicate (length ?head) 47")
    case True
    then have d: "dirname p = rev (dropWhile (\<lambda>c. c = 47) (rev ?head))"
      by (simp add: dirname_def Let_def)
    with assms(3) have "hd (dirname p) = hd ?head"
      using rstrip_slash_hd [of "\<lambda>c. c = 47" ?head] by simp
    with True hd_head show ?thesis by simp
  next
    case False
    then have "dirname p = ?head"
      by (auto simp: dirname_def Let_def)
    with assms(3) hd_head show ?thesis by simp
  qed
qed

lemma dirname_join_traversal:
  assumes "47 \<in> set filename"
  shows "dirname (join CARDS_FOLDER filename) \<noteq> CARDS_FOLDER"
proof (cases "startswith filename [47]")
  case True
  then have j: "join CARDS_FOLDER filename = filename"
    by (simp add: join_def)
  from True have "filename \<noteq> []" "hd filename = 47"
    by (cases filename; simp add: startswith_def)+
  then have "dirname filename = [] \<or> hd (dirname filename) = 47"
    using dirname_nonempty_hd [of filename] by blast
  moreover have "CARDS_FOLDER \<noteq> []" "hd CARDS_FOLDER \<noteq> 47"
    by (simp_all add: CARDS_FOLDER_eq)
  ultimately have "dirname filename \<noteq> CARDS_FOLDER" by auto
  then show ?thesis unfolding j .
next
  case False
  then have j: "join CARDS_FOLDER filename = CARDS_FOLDER @ 47 # filename"
    by (simp add: join_def endswith_def CARDS_FOLDER_eq)
  from assms obtain a b where ab: "filename = a @ 47 # b" "47 \<notin> set b"
    by (metis split_list_last)
  from False ab have a: "a \<noteq> []" "hd a \<noteq> 47"
    by (cases a; simp add: startswith_def)+
  let ?head = "CARDS_FOLDER @ (47 # a @ [47])"
  have p: "join CARDS_FOLDER filename = (CARDS_FOLDER @ 47 # a) @ 47 # b"
    unfolding j by (simp add: ab(1))
  have "rev (dropWhile (\<lambda>c. c \<noteq> 47) (rev (join CARDS_FOLDER filename)))
          = (CARDS_FOLDER @ 47 # a) @ [47]"
    unfolding p by (rule upto_last_slash [OF ab(2)])
  then have head: "rev (dropWhile (\<lambda>c. c \<noteq> 47) (rev (join CARDS_FOLDER filename))) = ?head"
    by simp
  have in_head: "115 \<in> set ?head" by (simp add: CARDS_FOLDER_eq)
  have not_all: "?head \<noteq> replicate (length ?head) 47"
  proof
    assume "?head = replicate (length ?head) 47"
    from replicate_all_same [OF this in_head] show False by simp
  qed
  have "\<exists>c \<in> set (47 # a @ [47]). c \<noteq> 47"
    using a by (cases a) auto
  from rstrip_slash_keep [OF this, of CARDS_FOLDER]
  obtain zs where zs: "zs \<noteq> []"
    "rev (dropWhile (\<lambda>c. c = 47) (rev ?head)) = CARDS_FOLDER @ zs" by blast
  have "dirname (join CARDS_FOLDER filename) = CARDS_FOLDER @ zs"
    using not_all zs(2) by (simp add: dirname_def Let_def head del: append.simps rev.simps rev_append)
  with zs(1) show ?thesis by simp
qed

lemma dirname_join_plain:
  assumes "47 \<notin> set filename"
  shows "dirname (join CARDS_FOLDER filename) = CARDS_FOLDER"
proof -
  have "rev (dropWhile (\<lambda>c. c \<noteq> 47) (rev (CARDS_FOLDER @ 47 # filename))) = CARDS_FOLDER @ [47]"
    by (rule upto_last_slash [OF assms])
  then show ?thesis
    by (simp add: dirname_def join_CARDS_FOLDER [OF assms] Let_def) (simp add: CARDS_FOLDER_eq)
qed

lemma delete_card_unchanged:
  "\<not> (exists fs (join CARDS_FOLDER filename) \<and> isfile fs (join CARDS_FOLDER filename) \<and>
       dirname (join CARDS_FOLDER filename) = CARDS_FOLDER) \<Longrightarrow>
   delete_card fs filename = (Redirect_admin, fs)"
  by (auto simp: delete_card_def Let_def)

lemma fs_remove_absent: "map_of fs p = None \<Longrightarrow> fs_remove fs p = fs"
proof (induction fs)
  case Nil
  then show ?case by (simp add: fs_remove_def)
next
  case (Cons e fs)
  then show ?case by (cases e) (auto simp: fs_remove_def split: if_splits)
qed

lemma delete_card_changed:
  assumes "snd (delete_card fs filename) \<noteq> fs"
  shows "exists fs (join CARDS_FOLDER filename) \<and> isfile fs (join CARDS_FOLDER filename) \<and>
      dirname (join CARDS_FOLDER filename) = CARDS_FOLDER"
proof (rule ccontr)
  assume "\<not> ?thesis"
  then have "delete_card fs filename = (Redirect_admin, fs)"
    by (rule delete_card_unchanged)
  with assms show False by simp
qed

text \<open>
  Claim C6. \<open>delete_card\<close> always answers with the redirect to the admin page. It
  changes the file system only when the joined path exists, is a regular file and has the
  cards directory as its directory part. A file name with a separator in it (every
  \<open>../\<close> traversal has one), a path that does not exist and a path that is a directory
  (as the parent reference \<open>..\<close> is) leave the file system as it was. The only path that
  can change is \<open>static/cards/filename\<close> for a file name without separator: a regular
  file directly inside the cards directory, which is removed.
\<close>

theorem delete_confined:
  "fst (delete_card fs filename) = Redirect_admin \<and>
   (snd (delete_card fs filename) \<noteq> fs \<longrightarrow>
      exists fs (join CARDS_FOLDER filename) \<and> isfile fs (join CARDS_FOLDER filename) \<and>
      dirname (join CARDS_FOLDER filename) = CARDS_FOLDER) \<and>
   (47 \<in> set filename \<longrightarrow> delete_card fs filename = (Redirect_admin, fs)) \<and>
   (\<not> exists fs (join CARDS_FOLDER filename) \<longrightarrow>
      delete_card fs filename = (Redirect_admin, fs)) \<and>
   (map_of fs (join CARDS_FOLDER filename) = Some Dir \<longrightarrow>
      delete_card fs filename = (Redirect_admin, fs)) \<and>
   (\<forall>path. map_of (snd (delete_card fs filename)) path \<noteq> map_of fs path \<longrightarrow>
      path = CARDS_FOLDER @ 47 # filename \<and> 47 \<notin> set filename \<and>
      (\<exists>content. map_of fs path = Some (File content)) \<and>
      map_of (snd (delete_card fs filename)) path = None)"
proof -
  have response: "fst (delete_card fs filename) = Redirect_admin"
    by (simp add: delete_card_def Let_def)
  have only_when: "snd (delete_card fs filename) \<noteq> fs \<longrightarrow>
      exists fs (join CARDS_FOLDER filename) \<and> isfile fs (join CARDS_FOLDER filename) \<and>
      dirname (join CARDS_FOLDER filename) = CARDS_FOLDER"
    using delete_card_changed [of fs filename] by blast
  have traversal: "47 \<in> set filename \<longrightarrow> delete_card fs filename = (Redirect_admin, fs)"
    using dirname_join_traversal [of filename] by (simp add: delete_card_unchanged)
  have missing: "\<not> exists fs (join CARDS_FOLDER filename) \<longrightarrow>
      delete_card fs filename = (Redirect_admin, fs)"
    by (simp add: delete_card_unchanged)
  have directory: "map_of fs (join CARDS_FOLDER filename) = Some Dir \<longrightarrow>
      delete_card fs filename = (Redirect_admin, fs)"
    by (simp add: delete_card_unchanged isfile_def)
  have confined: "\<forall>path. map_of (snd (delete_card fs filename)) path \<noteq> map_of fs path \<longrightarrow>
      path = CARDS_FOLDER @ 47 # filename \<and> 47 \<notin> set filename \<and>
      (\<exists>content. map_of fs path = Some (File content)) \<and>
      map_of (snd (delete_card fs filename)) path = None"
  proof (intro allI impI)
    fix path
    assume changed: "map_of (snd (delete_card fs filename)) path \<noteq> map_of fs path"
    then have "snd (delete_card fs filename) \<noteq> fs" by auto
    from delete_card_changed [OF this]
    have cond: "exists fs (join CARDS_FOLDER filename)" "isfile fs (join CARDS_FOLDER filename)"
      "dirname (join CARDS_FOLDER filename) = CARDS_FOLDER"
      by simp_all
    then have removed: "snd (delete_card fs filename) = fs_remove fs (join CARDS_FOLDER filename)"
      by (simp add: delete_card_def Let_def)
    from cond(3) have plain: "47 \<notin> set filename"
      using dirname_join_traversal [of filename] by blast
    from changed have path: "path = join CARDS_FOLDER filename"
      by (simp add: removed map_of_fs_remove split: if_splits)
    from cond(2) obtain content where "map_of fs (join CARDS_FOLDER filename) = Some (File content)"
      by (auto simp: isfile_def split: option.splits node.splits)
    then show "path = CARDS_FOLDER @ 47 # filename \<and> 47 \<notin> set filename \<and>
        (\<exists>content. map_of fs path = Some (File content)) \<and>
        map_of (snd (delete_card fs filename)) path = None"
      using plain path by (simp add: removed map_of_fs_remove join_CARDS_FOLDER)
  qed
  from response only_when traversal missing directory confined show ?thesis
    by (intro conjI)
qed

theorem delete_confined_witness:
  "delete_card [(py ''static/secret.txt'', File [1]), (py ''static/cards/a.pdf'', File [2])]
      (py ''../secret.txt'')
     = (Redirect_admin,
        [(py ''static/secret.txt'', File [1]), (py ''static/cards/a.pdf'', File [2])]) \<and>
   delete_card [(py ''static/cards/..'', Dir), (py ''static/cards/a.pdf'', File [2])] (py ''..'')
     = (Redirect_admin, [(py ''static/cards/..'', Dir), (py ''static/cards/a.pdf'', File [2])]) \<and>
   delete_card [(py ''static/cards/a.pdf'', File [2])] (py ''b.pdf'')
     = (Redirect_admin, [(py ''static/cards/a.pdf'', File [2])]) \<and>
   delete_card [(py ''static/secret.txt'', File [1]), (py ''static/cards/a.pdf'', File [2])]
      (py ''a.pdf'')
     = (Redirect_admin, [(py ''static/secret.txt'', File [1])])"
proof -
  have 1: "47 \<in> set (py ''../secret.txt'')" by (simp add: py_def)
  have 2: "map_of [(py ''static/cards/..'', Dir), (py ''static/cards/a.pdf'', File [2])]
              (join CARDS_FOLDER (py ''..'')) = Some Dir"
    by (simp add: eval_paths eval_strings)
  have 3: "\<not> exists [(py ''static/cards/a.pdf'', File [2])] (join CARDS_FOLDER (py ''b.pdf''))"
    by (simp add: eval_paths eval_strings)
  have 4: "delete_card [(py ''static/secret.txt'', File [1]), (py ''static/cards/a.pdf'', File [2])]
      (py ''a.pdf'')
     = (Redirect_admin, [(py ''static/secret.txt'', File [1])])"
    by (simp add: eval_paths eval_strings Let_def)
  show ?thesis
    using delete_confined [of "[(py ''static/secret.txt'', File [1]), (py ''static/cards/a.pdf'', File [2])]" "py ''../secret.txt''"]
      delete_confined [of "[(py ''static/cards/..'', Dir), (py ''static/cards/a.pdf'', File [2])]" "py ''..''"]
      delete_confined [of "[(py ''static/cards/a.pdf'', File [2])]" "py ''b.pdf''"]
      1 2 3 4
    by blast
qed

section \<open>The admin login\<close>

text \<open>
  Claim C10. When only a plain \<open>ADMIN_PASSWORD\<close> is configured (not empty, not starting
  with \<open>pbkdf2:sha256:\<close>, and no \<open>ADMIN_PASSWORD_HASH\<close>), the start-up code stores
  its hash and sets \<open>ADMIN_PASSWORD\<close> to \<open>None\<close>; \<open>admin\<close> compares the submitted
  password with \<open>ADMIN_PASSWORD\<close> and never reads the stored hash, so every login is
  rejected, the one with the configured password too.
\<close>

theorem plaintext_only_login_rejected:
  assumes "\<not> truthy (ADMIN_PASSWORD_HASH env)"
    and "ADMIN_PASSWORD env = Some password"
    and "password \<noteq> []"
    and "\<not> startswith password (py ''pbkdf2:sha256:'')"
  shows "startup generate_password_hash env =
           \<lparr>ADMIN_PASSWORD = None,
            ADMIN_PASSWORD_HASH = Some (generate_password_hash password)\<rparr> \<and>
         admin (startup generate_password_hash env) fs POST f = Admin_error Invalid_password \<and>
         admin (startup generate_password_hash env\<lparr>ADMIN_PASSWORD_HASH := h\<rparr>) fs m f =
           admin (startup generate_password_hash env) fs m f"
  using assms by (simp add: startup_def admin_def Let_def)

theorem plaintext_only_login_rejected_witness:
  "startup (\<lambda>p. py ''pbkdf2:sha256:1$salt$'' @ p)
      \<lparr>ADMIN_PASSWORD = Some (py ''hunter2''), ADMIN_PASSWORD_HASH = None\<rparr> =
     \<lparr>ADMIN_PASSWORD = None,
      ADMIN_PASSWORD_HASH = Some (py ''pbkdf2:sha256:1$salt$'' @ py ''hunter2'')\<rparr> \<and>
   admin (startup (\<lambda>p. py ''pbkdf2:sha256:1$salt$'' @ p)
      \<lparr>ADMIN_PASSWORD = Some (py ''hunter2''), ADMIN_PASSWORD_HASH = None\<rparr>) [] POST
      (password_form (py ''hunter2'')) = Admin_error Invalid_password"
proof -
  let ?env = "\<lparr>ADMIN_PASSWORD = Some (py ''hunter2''), ADMIN_PASSWORD_HASH = None\<rparr>"
  have h1: "\<not> truthy (ADMIN_PASSWORD_HASH ?env)" by (simp add: truthy_def)
  have h2: "ADMIN_PASSWORD ?env = Some (py ''hunter2'')" by simp
  have h3: "py ''hunter2'' \<noteq> []" by (simp add: py_def)
  have h4: "\<not> startswith (py ''hunter2'') (py ''pbkdf2:sha256:'')"
    by (simp add: startswith_def py_def)
  from plaintext_only_login_rejected [OF h1 h2 h3 h4] show ?thesis by blast
qed

text \<open>
  Claim C3 says that a login is accepted exactly when the submitted password verifies
  against the stored hash. The code does not do that: with only a hash configured, every
  password is rejected, the right one too; and with both variables set, the password equal
  to the plain \<open>ADMIN_PASSWORD\<close> is accepted whatever the hash is.
\<close>

theorem admin_compares_plaintext:
  "startup generate_password_hash
      \<lparr>ADMIN_PASSWORD = None, ADMIN_PASSWORD_HASH = Some (py ''pbkdf2:sha256:600000$s$h'')\<rparr> =
     \<lparr>ADMIN_PASSWORD = None, ADMIN_PASSWORD_HASH = Some (py ''pbkdf2:sha256:600000$s$h'')\<rparr> \<and>
   admin (startup generate_password_hash
      \<lparr>ADMIN_PASSWORD = None, ADMIN_PASSWORD_HASH = Some (py ''pbkdf2:sha256:600000$s$h'')\<rparr>)
      fs POST (password_form password) = Admin_error Invalid_password \<and>
   admin (startup generate_password_hash
      \<lparr>ADMIN_PASSWORD = Some (py ''guess''),
       ADMIN_PASSWORD_HASH = Some (py ''pbkdf2:sha256:600000$s$h'')\<rparr>)
      fs POST (password_form (py ''guess'')) = Admin_cards (list_cards fs)"
  by (simp add: startup_def admin_def truthy_def password_form_def form_get_def py_def)

end
